theory Spec2Isabelle
  imports Complex_Main "HOL-Library.Log_Nat"
begin

section \<open>Grade calculation\<close>

text \<open>
  Scores and grades are Python floats. They are modelled as real numbers: every float
  literal of the source stands for the decimal it is written as, and \<open><\<close> and \<open>\<le>\<close>
  are the exact comparisons that they also are on floats. A missing score is \<open>None\<close>.
\<close>

text \<open>The table \<^verbatim>\<open>GRADE_LOOKUP\<close>: (points reached in percent, decimal grade), in source order.\<close>

definition GRADE_LOOKUP :: "(real \<times> real) list" where
  "GRADE_LOOKUP =
   [(100, 1.0), (99, 1.0), (98, 1.0),
    (97, 1.1), (96.4, 1.1),
    (96, 1.2), (95, 1.2), (94.8, 1.2),
    (94, 1.3), (93.2, 1.3),
    (93, 1.4), (92, 1.4), (91.6, 1.4),
    (91, 1.5), (90, 1.5),
    (89, 1.6), (88.4, 1.6),
    (88, 1.7), (87, 1.7), (86.8, 1.7),
    (86, 1.8), (85.2, 1.8),
    (85, 1.9), (84, 1.9), (83.6, 1.9),
    (83, 2.0), (82, 2.0),
    (81, 2.1), (80.4, 2.1),
    (80, 2.2), (79, 2.2), (78.8, 2.2),
    (78, 2.3), (77.2, 2.3),
    (77, 2.4), (76, 2.4), (75.6, 2.4),
    (75, 2.5), (74, 2.5),
    (73, 2.6), (72.4, 2.6),
    (72, 2.7), (71, 2.7), (70.8, 2.7),
    (70, 2.8), (69.2, 2.8),
    (69, 2.9), (68, 2.9), (67.6, 2.9),
    (67, 3.0), (66, 3.0),
    (65, 3.1), (64.4, 3.1),
    (64, 3.2), (63, 3.2), (62.8, 3.2),
    (62, 3.3), (61.2, 3.3),
    (61, 3.4), (60, 3.4), (59.6, 3.4),
    (59, 3.5), (58, 3.5),
    (57, 3.6), (56.4, 3.6),
    (56, 3.7), (55, 3.7), (54.8, 3.7),
    (54, 3.8), (53.2, 3.8),
    (53, 3.9), (52, 3.9), (51.6, 3.9),
    (51, 4.0), (50, 4.0)]"

text \<open>
  The loop \<^verbatim>\<open>for threshold, grade in GRADE_LOOKUP\<close> of \<^verbatim>\<open>convert_points_to_grade\<close>:
  the grade of the first row whose threshold is at most \<open>p\<close>, and the value of the final
  \<^verbatim>\<open>return 5.0\<close> when the table is exhausted.
\<close>

fun lookup_grade :: "(real \<times> real) list \<Rightarrow> real \<Rightarrow> real" where
  "lookup_grade [] p = 5.0"
| "lookup_grade ((threshold, grade) # rest) p =
     (if threshold \<le> p then grade else lookup_grade rest p)"

definition convert_points_to_grade :: "real option \<Rightarrow> real option" where
  "convert_points_to_grade points =
     (case points of
        None \<Rightarrow> None
      | Some p \<Rightarrow> if p < 50 then Some 5.0 else Some (lookup_grade GRADE_LOOKUP p))"

text \<open>
  Float arithmetic. A float is a binary64 number; a real number \<open>x\<close> stands for the float
  nearest to it, \<open>fl x\<close> (round to nearest, ties to the even significand; 53 bits of
  significand, least exponent \<open>-1022\<close>, subnormal numbers included), and a float stands for
  itself. The product and the sum of two floats are the floats nearest to the exact product
  and sum. Overflow to an infinity is not modelled: \<open>fl x\<close> is the float nearest to \<open>x\<close> for
  \<open>\<bar>x\<bar> < 2 ^ 1024 - 2 ^ 970\<close>.
\<close>

definition round_half_even :: "real \<Rightarrow> int" where
  "round_half_even y =
     (let f = \<lfloor>y\<rfloor>; d = y - of_int f
      in if d < 1 / 2 then f else if 1 / 2 < d then f + 1 else if even f then f else f + 1)"

definition pow2 :: "int \<Rightarrow> real" where
  "pow2 e = (if 0 \<le> e then 2 ^ nat e else 1 / 2 ^ nat (- e))"

definition binary_exponent :: "real \<Rightarrow> int" where
  \<comment> \<open>for \<open>0 < x\<close>, the \<open>e\<close> with \<open>2 ^ e \<le> x < 2 ^ (e + 1)\<close>\<close>
  "binary_exponent x =
     (if 1 \<le> x then int (floorlog 2 (nat \<lfloor>x\<rfloor>)) - 1
      else - int (floorlog 2 (nat (\<lceil>1 / x\<rceil> - 1))))"

definition fl :: "real \<Rightarrow> real" where
  "fl x =
     (if x = 0 then 0
      else (let e = max (binary_exponent \<bar>x\<bar>) (- 1022);
                ulp = pow2 (e - 52)
            in sgn x * of_int (round_half_even (\<bar>x\<bar> / ulp)) * ulp))"

definition float_mul :: "real \<Rightarrow> real \<Rightarrow> real" where
  "float_mul x y = fl (fl x * fl y)"

definition float_add :: "real \<Rightarrow> real \<Rightarrow> real" where
  "float_add x y = fl (fl x + fl y)"

text \<open>
  Python's \<^verbatim>\<open>round(x, 1)\<close> on a float: the multiple of one tenth nearest to the exact value
  of the float, a tie going to the even tenth. Python returns the float nearest to this
  decimal, for which the decimal stands.
\<close>

definition py_round1 :: "real \<Rightarrow> real" where
  "py_round1 x = of_int (round_half_even (fl x * 10)) / 10"

record weighted_grade =
  weighted_thesis :: real
  weighted_defense :: real
  combined_points :: real
  thesis_grade :: "real option"
  defense_grade :: "real option"
  combined_grade :: "real option"

definition compute_weighted_grade :: "real \<Rightarrow> real \<Rightarrow> weighted_grade" where
  "compute_weighted_grade thesis_points defense_points =
     (let w_thesis = py_round1 (float_mul thesis_points 0.75);
          w_defense = py_round1 (float_mul defense_points 0.25);
          combined = py_round1 (float_add w_thesis w_defense)
      in \<lparr> weighted_thesis = w_thesis,
           weighted_defense = w_defense,
           combined_points = combined,
           thesis_grade = convert_points_to_grade (Some thesis_points),
           defense_grade = convert_points_to_grade (Some defense_points),
           combined_grade = convert_points_to_grade (Some combined) \<rparr>)"

section \<open>Strings and regular expressions of the title page extraction\<close>

text \<open>
  A Python string is modelled as a list of 8-bit characters, read as the code points 0 to 255.
  The character classes below are those of Python 3 on these code points.
\<close>

definition is_space :: "char \<Rightarrow> bool" where
  \<comment> \<open>\<^verbatim>\<open>str.isspace\<close> and the class \<^verbatim>\<open>\s\<close>\<close>
  "is_space c =
     (let n = (of_char c :: nat)
      in (9 \<le> n \<and> n \<le> 13) \<or> (28 \<le> n \<and> n \<le> 32) \<or> n = 133 \<or> n = 160)"

definition is_decimal :: "char \<Rightarrow> bool" where
  \<comment> \<open>the class \<^verbatim>\<open>\d\<close>\<close>
  "is_decimal c = (let n = (of_char c :: nat) in 48 \<le> n \<and> n \<le> 57)"

definition is_digit_char :: "char \<Rightarrow> bool" where
  \<comment> \<open>the characters that \<^verbatim>\<open>str.isdigit\<close> accepts: decimal digits and superscript digits\<close>
  "is_digit_char c =
     (let n = (of_char c :: nat) in (48 \<le> n \<and> n \<le> 57) \<or> n = 178 \<or> n = 179 \<or> n = 185)"

definition is_word :: "char \<Rightarrow> bool" where
  \<comment> \<open>the class \<^verbatim>\<open>\w\<close>: alphanumeric characters and the underscore\<close>
  "is_word c =
     (let n = (of_char c :: nat)
      in (48 \<le> n \<and> n \<le> 57) \<or> (65 \<le> n \<and> n \<le> 90) \<or> n = 95 \<or> (97 \<le> n \<and> n \<le> 122)
         \<or> n = 170 \<or> n = 178 \<or> n = 179 \<or> n = 181 \<or> n = 185 \<or> n = 186
         \<or> (188 \<le> n \<and> n \<le> 190) \<or> (192 \<le> n \<and> n \<le> 214) \<or> (216 \<le> n \<and> n \<le> 246)
         \<or> 248 \<le> n)"

definition ascii_lower :: "char \<Rightarrow> char" where
  "ascii_lower c =
     (let n = (of_char c :: nat) in if 65 \<le> n \<and> n \<le> 90 then char_of (n + 32) else c)"

definition space_or_dot :: "char \<Rightarrow> bool" where
  "space_or_dot c = (is_space c \<or> c = CHR ''.'')"

definition comma_or_space :: "char \<Rightarrow> bool" where
  "comma_or_space c = (c = CHR '','' \<or> is_space c)"

definition dot_or_slash :: "char \<Rightarrow> bool" where
  "dot_or_slash c = (c = CHR ''.'' \<or> c = CHR ''/'')"

definition not_comma_paren :: "char \<Rightarrow> bool" where
  "not_comma_paren c = (c \<noteq> CHR '','' \<and> c \<noteq> CHR '')'')"

definition strip :: "string \<Rightarrow> string" where
  "strip s = rev (dropWhile is_space (rev (dropWhile is_space s)))"

fun split_on :: "char \<Rightarrow> string \<Rightarrow> string list" where
  "split_on c [] = [[]]"
| "split_on c (x # xs) =
     (if x = c then [] # split_on c xs
      else (case split_on c xs of [] \<Rightarrow> [[x]] | h # t \<Rightarrow> (x # h) # t))"

definition split_first :: "char \<Rightarrow> string \<Rightarrow> string list" where
  \<comment> \<open>\<^verbatim>\<open>s.split(c, 1)\<close>\<close>
  "split_first c s =
     (if c \<in> set s then [takeWhile (\<lambda>x. x \<noteq> c) s, tl (dropWhile (\<lambda>x. x \<noteq> c) s)] else [s])"

fun join :: "string \<Rightarrow> string list \<Rightarrow> string" where
  "join sep [] = []"
| "join sep [x] = x"
| "join sep (x # y # zs) = x @ sep @ join sep (y # zs)"

definition isdigit :: "string \<Rightarrow> bool" where
  "isdigit s = (s \<noteq> [] \<and> list_all is_digit_char s)"

text \<open>
  The regular expressions of the source use literals (with and without \<^verbatim>\<open>re.IGNORECASE\<close>),
  character classes, greedy repetition of a character class, greedy optional groups, ordered
  alternatives, capturing groups, \<^verbatim>\<open>^\<close> and \<^verbatim>\<open>\b\<close>. A matcher state is the text before the
  position (reversed), the text from the position on, and the groups captured so far.
  \<open>rx_run\<close> lists the states in which a match of the expression can end, in the order in
  which Python's backtracking matcher tries them; the first one is the match Python reports.
\<close>

datatype rx =
    Eps
  | Lit char
  | LitI char
  | Cls "char \<Rightarrow> bool"
  | Seq rx rx
  | Alt rx rx
  | Opt rx
  | Rep "char \<Rightarrow> bool" nat "nat option"
  | Bol
  | WordB
  | Grp nat rx

type_synonym groups = "nat \<Rightarrow> string"

type_synonym mstate = "string \<times> string \<times> groups"

definition word_boundary :: "string \<Rightarrow> string \<Rightarrow> bool" where
  "word_boundary pre rest =
     ((pre \<noteq> [] \<and> is_word (hd pre)) \<noteq> (rest \<noteq> [] \<and> is_word (hd rest)))"

definition matched_text :: "string \<Rightarrow> string \<Rightarrow> string" where
  \<comment> \<open>the text consumed between the position with \<open>pre\<close> and the later one with \<open>pre'\<close>\<close>
  "matched_text pre pre' = rev (take (length pre' - length pre) pre')"

fun rx_run :: "rx \<Rightarrow> mstate \<Rightarrow> mstate list" where
  "rx_run Eps st = [st]"
| "rx_run (Lit c) (b, s, g) =
     (case s of [] \<Rightarrow> [] | x # xs \<Rightarrow> if x = c then [(x # b, xs, g)] else [])"
| "rx_run (LitI c) (b, s, g) =
     (case s of [] \<Rightarrow> []
      | x # xs \<Rightarrow> if ascii_lower x = ascii_lower c then [(x # b, xs, g)] else [])"
| "rx_run (Cls P) (b, s, g) =
     (case s of [] \<Rightarrow> [] | x # xs \<Rightarrow> if P x then [(x # b, xs, g)] else [])"
| "rx_run (Seq r1 r2) st = concat (map (rx_run r2) (rx_run r1 st))"
| "rx_run (Alt r1 r2) st = rx_run r1 st @ rx_run r2 st"
| "rx_run (Opt r) st = rx_run r st @ [st]"
| "rx_run (Rep P lo hi) (b, s, g) =
     (let n = length (takeWhile P s);
          m = (case hi of None \<Rightarrow> n | Some h \<Rightarrow> min n h)
      in map (\<lambda>k. (rev (take k s) @ b, drop k s, g)) (rev [lo ..< Suc m]))"
| "rx_run Bol (b, s, g) = (if b = [] then [(b, s, g)] else [])"
| "rx_run WordB (b, s, g) = (if word_boundary b s then [(b, s, g)] else [])"
| "rx_run (Grp n r) (b, s, g) =
     map (\<lambda>(b', s', g'). (b', s', g'(n := matched_text b b'))) (rx_run r (b, s, g))"

definition no_groups :: groups where
  "no_groups = (\<lambda>_. [])"

definition match_at :: "rx \<Rightarrow> string \<Rightarrow> string \<Rightarrow> groups option" where
  \<comment> \<open>the match starting at the position between \<open>pre\<close> and \<open>rest\<close>; group 0 is the whole match\<close>
  "match_at r pre rest =
     (case rx_run r (pre, rest, no_groups) of
        [] \<Rightarrow> None
      | (b', s', g) # _ \<Rightarrow> Some (g(0 := matched_text pre b')))"

definition re_match :: "rx \<Rightarrow> string \<Rightarrow> groups option" where
  "re_match r s = match_at r [] s"

fun search_from :: "rx \<Rightarrow> string \<Rightarrow> string \<Rightarrow> groups option" where
  "search_from r pre [] = match_at r pre []"
| "search_from r pre (x # xs) =
     (case match_at r pre (x # xs) of
        Some m \<Rightarrow> Some m
      | None \<Rightarrow> search_from r (x # pre) xs)"

definition re_search :: "rx \<Rightarrow> string \<Rightarrow> groups option" where
  "re_search r s = search_from r [] s"

definition re_fullmatch :: "rx \<Rightarrow> string \<Rightarrow> groups option" where
  "re_fullmatch r s =
     (case filter (\<lambda>(b', s', g). s' = []) (rx_run r ([], s, no_groups)) of
        [] \<Rightarrow> None
      | (b', s', g) # _ \<Rightarrow> Some (g(0 := matched_text [] b')))"

definition re_sub_start :: "rx \<Rightarrow> string \<Rightarrow> string" where
  \<comment> \<open>\<^verbatim>\<open>re.sub(r, '', s)\<close> for an expression that starts with \<^verbatim>\<open>^\<close> and matches no empty
      text: only a match at position 0 can be removed\<close>
  "re_sub_start r s = (case rx_run r ([], s, no_groups) of [] \<Rightarrow> s | (b', s', g) # _ \<Rightarrow> s')"

fun seqs :: "rx list \<Rightarrow> rx" where
  "seqs [] = Eps"
| "seqs [r] = r"
| "seqs (r # rs) = Seq r (seqs rs)"

fun alts :: "rx \<Rightarrow> rx list \<Rightarrow> rx" where
  "alts r [] = r"
| "alts r (r' # rs) = Alt r (alts r' rs)"

definition lits :: "string \<Rightarrow> rx" where
  "lits s = seqs (map Lit s)"

definition litsI :: "string \<Rightarrow> rx" where
  "litsI s = seqs (map LitI s)"

definition month :: "string \<Rightarrow> string \<Rightarrow> rx" where
  \<comment> \<open>\<^verbatim>\<open>Jan(?:uary)?\<close>\<close>
  "month short rest = Seq (litsI short) (Opt (litsI rest))"

definition RE_DATE_LONG :: rx where
  "RE_DATE_LONG =
     seqs [WordB,
       Grp 1 (alts (month ''Jan'' ''uary'')
                [month ''Feb'' ''ruary'', month ''Mar'' ''ch'', month ''Apr'' ''il'',
                 litsI ''May'', month ''Jun'' ''e'', month ''Jul'' ''y'', month ''Aug'' ''ust'',
                 month ''Sep'' ''tember'', month ''Oct'' ''ober'', month ''Nov'' ''ember'',
                 month ''Dec'' ''ember'']),
       Rep space_or_dot 0 None,
       Grp 2 (Rep is_decimal 1 (Some 2)),
       Rep comma_or_space 1 None,
       Grp 3 (Rep is_decimal 4 (Some 4)),
       WordB]"

definition RE_DATE_SHORT :: rx where
  "RE_DATE_SHORT =
     seqs [WordB, Grp 1 (Rep is_decimal 1 (Some 2)), Cls dot_or_slash,
       Grp 2 (Rep is_decimal 1 (Some 2)), Cls dot_or_slash,
       Grp 3 (Rep is_decimal 4 (Some 4)), WordB]"

definition RE_PROF :: rx where
  "RE_PROF = seqs [Bol, litsI ''Prof'', Cls space_or_dot]"

definition RE_CHAIR :: rx where
  "RE_CHAIR = seqs [Bol, litsI ''Chair'', Rep is_space 1 None, litsI ''of'']"

definition RE_DOB :: rx where
  "RE_DOB =
     seqs [WordB, Rep is_decimal 2 (Some 2), Lit CHR ''.'', Rep is_decimal 2 (Some 2),
       Lit CHR ''.'', Rep is_decimal 4 (Some 4), WordB]"

definition RE_MASTER_THESIS :: rx where
  \<comment> \<open>\<^verbatim>\<open>master\s+thesis\<close> with \<^verbatim>\<open>re.IGNORECASE\<close>\<close>
  "RE_MASTER_THESIS = seqs [litsI ''master'', Rep is_space 1 None, litsI ''thesis'']"

definition RE_PROF_PREFIX :: rx where
  \<comment> \<open>\<^verbatim>\<open>^Prof[\s.]+(?:Dr[\s.]+)?\<close>, without flags\<close>
  "RE_PROF_PREFIX =
     seqs [Bol, lits ''Prof'', Rep space_or_dot 1 None,
       Opt (Seq (lits ''Dr'') (Rep space_or_dot 1 None))]"

definition RE_ID_LINE :: rx where
  \<comment> \<open>\<^verbatim>\<open>\d{6,10}\<close>\<close>
  "RE_ID_LINE = Rep is_decimal 6 (Some 10)"

definition RE_ID_PAREN :: rx where
  \<comment> \<open>\<^verbatim>\<open>\((\d{6,10})\)\<close>\<close>
  "RE_ID_PAREN = seqs [Lit CHR ''('', Grp 1 (Rep is_decimal 6 (Some 10)), Lit CHR '')'']"

definition RE_LOC_PAREN :: rx where
  \<comment> \<open>\<^verbatim>\<open>\(([^,\)]+),\s*(\d{1,2}\.\d{1,2}\.\d{4})\)\<close>\<close>
  "RE_LOC_PAREN =
     seqs [Lit CHR ''('', Grp 1 (Rep not_comma_paren 1 None), Lit CHR '','',
       Rep is_space 0 None,
       Grp 2 (seqs [Rep is_decimal 1 (Some 2), Lit CHR ''.'', Rep is_decimal 1 (Some 2),
                Lit CHR ''.'', Rep is_decimal 4 (Some 4)]),
       Lit CHR '')'']"

definition is_dob_line :: "string \<Rightarrow> bool" where
  "is_dob_line line = (re_search RE_DOB line \<noteq> None)"

section \<open>Title page extraction\<close>

text \<open>
  \<^verbatim>\<open>extract_title_page_fields\<close> builds a dictionary with seven fixed keys, all strings; it is a
  record here. Opening the PDF and reading the text of its first page is the work of an
  external library: the model starts from \<open>raw\<close>, the text of the first page
  (\<^verbatim>\<open>pdf.pages[0].extract_text() or ""\<close>).
\<close>

record title_page =
  thesis_title :: string
  advisor :: string
  co_advisor :: string
  location :: string
  submission_date :: string
  student_name :: string
  student_id :: string

definition empty_result :: title_page where
  "empty_result =
     \<lparr> thesis_title = [], advisor = [], co_advisor = [], location = [],
       submission_date = [], student_name = [], student_id = [] \<rparr>"

definition split_lines :: "string \<Rightarrow> string list" where
  \<comment> \<open>\<^verbatim>\<open>[l.strip() for l in raw.split("\n") if l.strip()]\<close>\<close>
  "split_lines raw = map strip (filter (\<lambda>l. strip l \<noteq> []) (split_on CHR 0x0A raw))"

definition is_header :: "string \<Rightarrow> bool" where
  "is_header line = (re_fullmatch RE_MASTER_THESIS line \<noteq> None)"

definition is_prof :: "string \<Rightarrow> bool" where
  "is_prof line = (re_match RE_PROF line \<noteq> None)"

definition is_chair :: "string \<Rightarrow> bool" where
  "is_chair line = (re_match RE_CHAIR line \<noteq> None)"

definition has_date_long :: "string \<Rightarrow> bool" where
  "has_date_long s = (re_search RE_DATE_LONG s \<noteq> None)"

definition has_date_short :: "string \<Rightarrow> bool" where
  "has_date_short s = (re_search RE_DATE_SHORT s \<noteq> None)"

text \<open>A \<^verbatim>\<open>for\<close> loop that stops at the first element with a property: its index.\<close>

fun first_index :: "('a \<Rightarrow> bool) \<Rightarrow> 'a list \<Rightarrow> nat option" where
  "first_index P [] = None"
| "first_index P (x # xs) = (if P x then Some 0 else map_option Suc (first_index P xs))"

text \<open>The same for a loop that keeps the match object of the first matching element.\<close>

fun first_match :: "('a \<Rightarrow> 'b option) \<Rightarrow> 'a list \<Rightarrow> (nat \<times> 'b) option" where
  "first_match f [] = None"
| "first_match f (x # xs) =
     (case f x of
        Some m \<Rightarrow> Some (0, m)
      | None \<Rightarrow> map_option (\<lambda>(i, m). (Suc i, m)) (first_match f xs))"

text \<open>Step 1: the line after the "Master Thesis" header, or 0 without a header.\<close>

definition header_start :: "string list \<Rightarrow> nat" where
  "header_start lines = (case first_index is_header lines of None \<Rightarrow> 0 | Some i \<Rightarrow> i + 1)"

text \<open>
  Step 2: the lines from \<open>start\<close> up to the first Chair or Prof line are the title;
  \<open>chair_idx\<close> is the index of that line, and stays \<open>start\<close> when there is none.
\<close>

definition is_marker :: "string \<Rightarrow> bool" where
  "is_marker line = (is_chair line \<or> is_prof line)"

definition title_lines_from :: "string list \<Rightarrow> nat \<Rightarrow> string list" where
  "title_lines_from lines start = takeWhile (\<lambda>l. \<not> is_marker l) (drop start lines)"

definition chair_index :: "string list \<Rightarrow> nat \<Rightarrow> nat" where
  "chair_index lines start =
     (case first_index is_marker (drop start lines) of None \<Rightarrow> start | Some k \<Rightarrow> start + k)"

text \<open>
  Step 3: \<open>advisor_idx\<close> is the index of the first Prof line from \<open>chair_idx\<close> on, and stays
  \<open>chair_idx\<close> when there is none.
\<close>

definition advisor_index :: "string list \<Rightarrow> nat \<Rightarrow> nat" where
  "advisor_index lines chair_idx =
     (case first_index is_prof (drop chair_idx lines) of
        None \<Rightarrow> chair_idx
      | Some k \<Rightarrow> chair_idx + k)"

definition advisor_step :: "title_page \<Rightarrow> string list \<Rightarrow> nat \<Rightarrow> title_page" where
  "advisor_step result lines advisor_idx =
     (if advisor_idx < length lines
      then (let raw_adv = lines ! advisor_idx
            in result\<lparr>advisor := strip (re_sub_start RE_PROF_PREFIX raw_adv)\<rparr>)
      else result)"

text \<open>Step 4: the co-advisor line; the result is paired with \<open>co_idx_used\<close>.\<close>

definition co_advisor_step :: "title_page \<Rightarrow> string list \<Rightarrow> nat \<Rightarrow> title_page \<times> nat" where
  "co_advisor_step result lines advisor_idx =
     (let co_idx = advisor_idx + 1
      in if co_idx < length lines \<and> \<not> is_prof (lines ! co_idx)
         then (let candidate = lines ! co_idx
               in if \<not> has_date_long candidate \<and> \<not> has_date_short candidate
                  then (result\<lparr>co_advisor := candidate\<rparr>, co_idx)
                  else (result, advisor_idx))
         else (result, advisor_idx))"

text \<open>Step 5: location and date.\<close>

definition loc_date_step :: "title_page \<Rightarrow> string list \<Rightarrow> nat \<Rightarrow> title_page" where
  "loc_date_step result lines loc_date_idx =
     (if loc_date_idx < length lines
      then (let loc_date = lines ! loc_date_idx;
                comma_parts = split_first CHR '','' loc_date
            in if length comma_parts = 2 \<and> has_date_long (comma_parts ! 1)
               then result\<lparr>location := strip (comma_parts ! 0),
                           submission_date := strip (comma_parts ! 1)\<rparr>
               else if has_date_long loc_date
               then result\<lparr>submission_date := loc_date\<rparr>
               else if has_date_short loc_date
               then (case re_search RE_LOC_PAREN loc_date of
                       Some m_paren \<Rightarrow>
                         result\<lparr>location := strip (m_paren 1),
                                submission_date := strip (m_paren 2)\<rparr>
                     | None \<Rightarrow> result\<lparr>submission_date := loc_date\<rparr>)
               else result)
      else result)"

text \<open>Step 6: the student name.\<close>

definition name_step :: "title_page \<Rightarrow> string list \<Rightarrow> nat \<Rightarrow> title_page" where
  "name_step result lines name_idx =
     (if name_idx < length lines
      then (let candidate = lines ! name_idx
            in if \<not> has_date_long candidate \<and> \<not> has_date_short candidate
                  \<and> \<not> isdigit candidate
               then result\<lparr>student_name := candidate\<rparr>
               else result)
      else result)"

text \<open>Step 7: the student ID.\<close>

definition id_step :: "title_page \<Rightarrow> string list \<Rightarrow> nat \<Rightarrow> title_page" where
  "id_step result lines id_idx =
     (if id_idx < length lines
      then (let id_line = lines ! id_idx
            in if re_fullmatch RE_ID_LINE id_line \<noteq> None
               then result\<lparr>student_id := id_line\<rparr>
               else (case re_search RE_ID_PAREN id_line of
                       Some m_id \<Rightarrow> result\<lparr>student_id := m_id 1\<rparr>
                     | None \<Rightarrow> result))
      else result)"

text \<open>Steps 1 to 7 in sequence, each on the result and the index left by the one before.\<close>

definition structural_pass :: "string list \<Rightarrow> title_page" where
  "structural_pass lines =
     (let start = header_start lines;
          title_lines = title_lines_from lines start;
          chair_idx = chair_index lines start;
          result1 = (if title_lines \<noteq> []
                     then empty_result\<lparr>thesis_title := join '' '' title_lines\<rparr>
                     else empty_result);
          advisor_idx = advisor_index lines chair_idx;
          result2 = advisor_step result1 lines advisor_idx;
          (result3, co_idx_used) = co_advisor_step result2 lines advisor_idx;
          loc_date_idx = co_idx_used + 1;
          result4 = loc_date_step result3 lines loc_date_idx;
          name_idx = loc_date_idx + 1;
          result5 = name_step result4 lines name_idx;
          id_idx = name_idx + 1
      in id_step result5 lines id_idx)"

text \<open>The fallbacks for fields that are still empty.\<close>

definition name_before :: "title_page \<Rightarrow> string list \<Rightarrow> nat \<Rightarrow> title_page" where
  \<comment> \<open>the line before the ID line \<open>i\<close> becomes the student name, if there is no name yet\<close>
  "name_before result lines i =
     (if 0 < i \<and> student_name result = []
      then (let candidate = lines ! (i - 1)
            in if \<not> has_date_long candidate \<and> \<not> has_date_short candidate
                  \<and> \<not> isdigit candidate \<and> \<not> is_dob_line candidate
               then result\<lparr>student_name := candidate\<rparr>
               else result)
      else result)"

definition fallback_id_line :: "title_page \<Rightarrow> string list \<Rightarrow> title_page" where
  "fallback_id_line result lines =
     (case first_index (\<lambda>line. re_fullmatch RE_ID_LINE line \<noteq> None) lines of
        None \<Rightarrow> result
      | Some i \<Rightarrow> name_before (result\<lparr>student_id := lines ! i\<rparr>) lines i)"

definition fallback_id_paren :: "title_page \<Rightarrow> string list \<Rightarrow> title_page" where
  "fallback_id_paren result lines =
     (case first_match (re_search RE_ID_PAREN) lines of
        None \<Rightarrow> result
      | Some (i, m) \<Rightarrow> name_before (result\<lparr>student_id := m 1\<rparr>) lines i)"

definition fallback_pass :: "title_page \<Rightarrow> string list \<Rightarrow> string \<Rightarrow> nat \<Rightarrow> title_page" where
  "fallback_pass result lines raw start =
     (let result1 =
            (if student_id result = []
             then (let r = fallback_id_line result lines
                   in if student_id r = [] then fallback_id_paren r lines else r)
             else result);
          result2 =
            (if submission_date result1 = []
             then (case re_search RE_DATE_LONG raw of
                     Some m \<Rightarrow> result1\<lparr>submission_date := m 0\<rparr>
                   | None \<Rightarrow> result1)
             else result1)
      in if thesis_title result2 = [] \<and> 1 < length lines
         then result2\<lparr>thesis_title := (if 0 < start then lines ! 1 else lines ! 0)\<rparr>
         else result2)"

definition extract_title_page_fields :: "string \<Rightarrow> title_page" where
  "extract_title_page_fields raw =
     (let lines = split_lines raw
      in if lines = [] then empty_result
         else fallback_pass (structural_pass lines) lines raw (header_start lines))"

section \<open>Predicates used to state and prove the properties\<close>

text \<open>
  A string is trimmed when it is empty or neither starts nor ends with a whitespace
  character; a line of the page, as \<open>split_lines\<close> produces it, is moreover not empty.
\<close>

definition trimmed :: "string \<Rightarrow> bool" where
  "trimmed s = (s = [] \<or> (\<not> is_space (hd s) \<and> \<not> is_space (last s)))"

definition clean_line :: "string \<Rightarrow> bool" where
  "clean_line l = (l \<noteq> [] \<and> \<not> is_space (hd l) \<and> \<not> is_space (last l))"

definition all_trimmed :: "title_page \<Rightarrow> bool" where
  "all_trimmed r =
     (trimmed (thesis_title r) \<and> trimmed (advisor r) \<and> trimmed (co_advisor r)
      \<and> trimmed (location r) \<and> trimmed (submission_date r) \<and> trimmed (student_name r)
      \<and> trimmed (student_id r))"

text \<open>
  Every match of an expression starts with (ends with) a character that has the property
  \<open>Q\<close>, and is not empty.
\<close>

definition starts_with :: "(char \<Rightarrow> bool) \<Rightarrow> rx \<Rightarrow> bool" where
  "starts_with Q r =
     (\<forall>b s g st'. st' \<in> set (rx_run r (b, s, g)) \<longrightarrow> s \<noteq> [] \<and> Q (hd s))"

definition ends_with :: "(char \<Rightarrow> bool) \<Rightarrow> rx \<Rightarrow> bool" where
  "ends_with Q r =
     (\<forall>b s g b' s' g'. (b', s', g') \<in> set (rx_run r (b, s, g))
        \<longrightarrow> length b < length b' \<and> Q (hd b'))"

section \<open>Properties of the grade calculation\<close>

lemma lookup_grade_in_table:
  "\<exists>row \<in> set tbl. fst row \<le> p \<Longrightarrow> lookup_grade tbl p \<in> snd ` set tbl"
proof (induction tbl)
  case Nil
  then show ?case by simp
next
  case (Cons row tbl)
  obtain t g where row: "row = (t, g)" by (cases row)
  show ?case
  proof (cases "t \<le> p")
    case True
    then show ?thesis by (simp add: row)
  next
    case False
    with Cons.prems row have "\<exists>r \<in> set tbl. fst r \<le> p" by auto
    from Cons.IH [OF this] False show ?thesis by (simp add: row)
  qed
qed

lemma lookup_grade_cases:
  "lookup_grade tbl p = 5 \<or> lookup_grade tbl p \<in> snd ` set tbl"
  by (induction tbl p rule: lookup_grade.induct) (simp, force)

lemma lookup_grade_mono:
  assumes "sorted (map snd tbl)" and "\<forall>g \<in> snd ` set tbl. g \<le> 5" and "p1 \<le> p2"
  shows "lookup_grade tbl p2 \<le> lookup_grade tbl p1"
  using assms
proof (induction tbl)
  case Nil
  then show ?case by simp
next
  case (Cons row tbl)
  obtain t g where row: "row = (t, g)" by (cases row)
  from Cons.prems row have g5: "g \<le> 5" and above: "\<forall>g' \<in> snd ` set tbl. g \<le> g'"
    and srt: "sorted (map snd tbl)" and all5: "\<forall>g \<in> snd ` set tbl. g \<le> 5"
    by auto
  show ?case
  proof (cases "t \<le> p2")
    case False
    with Cons.prems(3) have "\<not> t \<le> p1" by simp
    with False Cons.IH [OF srt all5 Cons.prems(3)] show ?thesis by (simp add: row)
  next
    case True
    show ?thesis
    proof (cases "t \<le> p1")
      case True
      with \<open>t \<le> p2\<close> show ?thesis by (simp add: row)
    next
      case False
      from lookup_grade_cases [of tbl p1] g5 above have "g \<le> lookup_grade tbl p1" by auto
      with True False show ?thesis by (simp add: row)
    qed
  qed
qed

lemma GRADE_LOOKUP_grades_sorted: "sorted (map snd GRADE_LOOKUP)"
  by (simp add: GRADE_LOOKUP_def)

lemma GRADE_LOOKUP_grades_le_5: "\<forall>g \<in> snd ` set GRADE_LOOKUP. g \<le> 5"
  by (simp add: GRADE_LOOKUP_def)

lemma GRADE_LOOKUP_last_row: "(50, 4) \<in> set GRADE_LOOKUP"
  by (simp add: GRADE_LOOKUP_def)

text \<open>
  C2: for every score \<open>p\<close> with \<open>50 \<le> p \<le> 100\<close> the grade returned is a grade of the
  threshold table, and between 50 and 100 a higher score never gets a numerically higher
  grade.
\<close>

theorem convert_points_to_grade_in_table_mono:
  assumes "50 \<le> p1" and "p1 \<le> p2" and "p2 \<le> 100"
  shows "\<exists>g1 g2. convert_points_to_grade (Some p1) = Some g1
           \<and> convert_points_to_grade (Some p2) = Some g2
           \<and> g1 \<in> snd ` set GRADE_LOOKUP \<and> g2 \<in> snd ` set GRADE_LOOKUP
           \<and> g2 \<le> g1"
proof -
  from assms have p2: "50 \<le> p2" by simp
  have in1: "lookup_grade GRADE_LOOKUP p1 \<in> snd ` set GRADE_LOOKUP"
    by (rule lookup_grade_in_table) (use GRADE_LOOKUP_last_row assms(1) in force)
  have in2: "lookup_grade GRADE_LOOKUP p2 \<in> snd ` set GRADE_LOOKUP"
    by (rule lookup_grade_in_table) (use GRADE_LOOKUP_last_row p2 in force)
  have "lookup_grade GRADE_LOOKUP p2 \<le> lookup_grade GRADE_LOOKUP p1"
    by (rule lookup_grade_mono [OF GRADE_LOOKUP_grades_sorted GRADE_LOOKUP_grades_le_5 assms(2)])
  with in1 in2 assms(1) p2 show ?thesis
    by (simp add: convert_points_to_grade_def)
qed

theorem convert_points_to_grade_in_table_mono_witness:
  "(50::real) \<le> 60 \<and> (60::real) \<le> 96.4 \<and> (96.4::real) \<le> 100
   \<and> convert_points_to_grade (Some 60) = Some 3.4
   \<and> convert_points_to_grade (Some 96.4) = Some 1.1
   \<and> (\<exists>g1 g2. convert_points_to_grade (Some 60) = Some g1
           \<and> convert_points_to_grade (Some 96.4) = Some g2
           \<and> g1 \<in> snd ` set GRADE_LOOKUP \<and> g2 \<in> snd ` set GRADE_LOOKUP
           \<and> g2 \<le> g1)"
  using convert_points_to_grade_in_table_mono [of 60 "96.4"]
  by (simp add: convert_points_to_grade_def GRADE_LOOKUP_def)

text \<open>C3: every score below 50, negative ones included, gets the fail grade 5.0.\<close>

theorem convert_points_to_grade_below_50:
  "p < 50 \<Longrightarrow> convert_points_to_grade (Some p) = Some 5.0"
  by (simp add: convert_points_to_grade_def)

theorem convert_points_to_grade_below_50_witness:
  "(-3::real) < 50 \<and> convert_points_to_grade (Some (-3)) = Some 5.0
   \<and> lookup_grade GRADE_LOOKUP (-3) = 5.0"
  using convert_points_to_grade_below_50 [of "-3"]
  by (simp add: GRADE_LOOKUP_def)

lemma round_half_even_near: "\<bar>of_int (round_half_even y) - y\<bar> \<le> 1 / 2"
  unfolding round_half_even_def Let_def by (auto simp: abs_if) linarith+

lemma round_half_even_of_int: "round_half_even (of_int m) = m"
  by (simp add: round_half_even_def Let_def)

lemma round_half_even_mono_int:
  "of_int m \<le> y \<Longrightarrow> m \<le> round_half_even y"
  "y \<le> of_int m \<Longrightarrow> round_half_even y \<le> m"
proof -
  show "m \<le> round_half_even y" if "of_int m \<le> y"
  proof -
    from that have "m \<le> \<lfloor>y\<rfloor>" by (simp add: le_floor_iff)
    then show ?thesis by (auto simp: round_half_even_def Let_def)
  qed
  show "round_half_even y \<le> m" if "y \<le> of_int m"
  proof (cases "y = of_int m")
    case True
    then show ?thesis by (simp add: round_half_even_of_int)
  next
    case False
    with that have "y < of_int m" by simp
    then have "\<lfloor>y\<rfloor> < m" by (simp add: floor_less_iff)
    then show ?thesis by (auto simp: round_half_even_def Let_def)
  qed
qed

lemma pow2_pos: "0 < pow2 e"
  by (simp add: pow2_def)

lemma pow2_add: "pow2 (a + b) = pow2 a * pow2 b"
proof -
  have "pow2 e = 2 powr (of_int e)" for e
    by (simp add: pow2_def powr_realpow [symmetric] powr_minus divide_inverse)
  then show ?thesis by (simp add: powr_add)
qed

lemma pow2_mono: "a \<le> b \<Longrightarrow> pow2 a \<le> pow2 b"
proof -
  have "pow2 e = 2 powr (of_int e)" for e
    by (simp add: pow2_def powr_realpow [symmetric] powr_minus divide_inverse)
  then show "a \<le> b \<Longrightarrow> pow2 a \<le> pow2 b" by simp
qed

lemma pow2_nat: "pow2 (int n) = 2 ^ n"
  by (simp add: pow2_def)

lemma pow2_shift: "pow2 (e + int k) = 2 ^ k * pow2 e"
  using pow2_add [of "int k" e] by (simp only: pow2_nat add.commute)

lemma pow2_unshift: "pow2 e = 2 ^ k * pow2 (e - int k)"
  using pow2_shift [of "e - int k" k] by simp

lemma binary_exponent_bounds:
  assumes "0 < x"
  shows "pow2 (binary_exponent x) \<le> x \<and> x < pow2 (binary_exponent x + 1)"
proof (cases "1 \<le> x")
  case True
  define n where "n = nat \<lfloor>x\<rfloor>"
  define k where "k = floorlog 2 n"
  from True have n1: "1 \<le> n" by (simp add: n_def le_nat_floor)
  then have b: "2 ^ (k - 1) \<le> n \<and> n < 2 ^ k"
    using floorlog_bounds [of n 2] by (simp add: k_def)
  from n1 have k1: "1 \<le> k" by (simp add: k_def floorlog_def)
  have e: "binary_exponent x = int (k - 1)"
    using True k1 by (simp add: binary_exponent_def k_def n_def)
  have nx: "real n \<le> x \<and> x < real n + 1"
    using True by (simp add: n_def)
  from b have "real n + 1 \<le> 2 ^ k"
    by (metis Suc_leI of_nat_Suc of_nat_le_iff of_nat_numeral of_nat_power add.commute
        of_nat_1 of_nat_add)
  moreover from b have "(2::real) ^ (k - 1) \<le> real n"
    by (metis of_nat_le_iff of_nat_numeral of_nat_power)
  moreover have "pow2 (binary_exponent x) = 2 ^ (k - 1)" unfolding e by (rule pow2_nat)
  moreover have "pow2 (binary_exponent x + 1) = 2 ^ k"
  proof -
    have "binary_exponent x + 1 = int k" using e k1 by simp
    then show ?thesis by (simp only: pow2_nat)
  qed
  ultimately show ?thesis using nx by linarith
next
  case False
  define y where "y = 1 / x"
  define c where "c = \<lceil>y\<rceil>"
  define n where "n = nat (c - 1)"
  define k where "k = floorlog 2 n"
  from False assms have y1: "1 < y" by (simp add: y_def)
  then have c2: "2 \<le> c" by (simp add: c_def le_ceiling_iff)
  then have n1: "1 \<le> n" by (simp add: n_def)
  then have b: "2 ^ (k - 1) \<le> n \<and> n < 2 ^ k"
    using floorlog_bounds [of n 2] by (simp add: k_def)
  from n1 have k1: "1 \<le> k" by (simp add: k_def floorlog_def)
  have e: "binary_exponent x = - int k"
    using False by (simp add: binary_exponent_def k_def n_def c_def y_def)
  have cy: "real_of_int c - 1 < y \<and> y \<le> real_of_int c"
    by (simp add: c_def) linarith
  have nc: "real n = real_of_int c - 1" using c2 by (simp add: n_def)
  from b have "real n + 1 \<le> 2 ^ k"
    by (metis Suc_leI of_nat_Suc of_nat_le_iff of_nat_numeral of_nat_power add.commute
        of_nat_1 of_nat_add)
  with nc cy have yk: "y \<le> 2 ^ k" by linarith
  from b have "(2::real) ^ (k - 1) \<le> real n"
    by (metis of_nat_le_iff of_nat_numeral of_nat_power)
  with nc cy have ky: "2 ^ (k - 1) < y" by linarith
  have xy: "x = 1 / y" using assms by (simp add: y_def)
  from yk y1 have lo: "1 / 2 ^ k \<le> x"
    unfolding xy by (simp add: frac_le)
  from ky have hi: "x < 1 / 2 ^ (k - 1)"
    unfolding xy by (simp add: frac_less2)
  have p1: "pow2 (- int k) = 1 / 2 ^ k" by (simp add: pow2_def)
  have p2: "pow2 (- int k + 1) = 1 / 2 ^ (k - 1)"
    using k1 by (cases k) (simp_all add: pow2_def nat_diff_distrib)
  show ?thesis unfolding e p1 p2 using lo hi by blast
qed

lemma binary_exponent_unique:
  assumes "pow2 e \<le> x" and "x < pow2 (e + 1)"
  shows "binary_exponent x = e"
proof -
  from assms(1) pow2_pos [of e] have x: "0 < x" by linarith
  from binary_exponent_bounds [OF x]
  have b: "pow2 (binary_exponent x) \<le> x" "x < pow2 (binary_exponent x + 1)" by simp_all
  have "\<not> binary_exponent x < e"
  proof
    assume "binary_exponent x < e"
    then have "pow2 (binary_exponent x + 1) \<le> pow2 e" by (intro pow2_mono) simp
    with b(2) assms(1) show False by linarith
  qed
  moreover have "\<not> e < binary_exponent x"
  proof
    assume "e < binary_exponent x"
    then have "pow2 (e + 1) \<le> pow2 (binary_exponent x)" by (intro pow2_mono) simp
    with b(1) assms(2) show False by linarith
  qed
  ultimately show ?thesis by simp
qed

lemma fl_nonzero_form:
  assumes "x \<noteq> 0"
  defines "e \<equiv> max (binary_exponent \<bar>x\<bar>) (- 1022)"
  defines "m \<equiv> round_half_even (\<bar>x\<bar> / pow2 (e - 52))"
  shows "fl x = sgn x * of_int m * pow2 (e - 52)" and "0 \<le> m" and "m \<le> 2 ^ 53"
    and "- 1022 < e \<Longrightarrow> 2 ^ 52 \<le> m" and "- 1022 \<le> e"
proof -
  let ?u = "pow2 (e - 52)"
  have u: "0 < ?u" by (rule pow2_pos)
  from assms(1) have ax: "0 < \<bar>x\<bar>" by simp
  note b = binary_exponent_bounds [OF ax]
  show "fl x = sgn x * of_int m * ?u"
    using assms(1) by (simp add: fl_def Let_def e_def m_def)
  have "0 \<le> \<bar>x\<bar> / ?u" using u by simp
  then show "0 \<le> m" unfolding m_def using round_half_even_mono_int(1) [of 0] by simp
  have "binary_exponent \<bar>x\<bar> \<le> e" by (simp add: e_def)
  then have "pow2 (binary_exponent \<bar>x\<bar> + 1) \<le> pow2 (e + 1)" by (intro pow2_mono) simp
  with b have "\<bar>x\<bar> < pow2 (e + 1)" by linarith
  moreover have "pow2 (e + 1) = 2 ^ 53 * ?u"
    using pow2_unshift [of "e + 1" 53] by simp
  ultimately have "\<bar>x\<bar> / ?u \<le> 2 ^ 53" using u by (simp add: field_simps)
  then show "m \<le> 2 ^ 53"
    unfolding m_def using round_half_even_mono_int(2) [of _ "2 ^ 53"] by simp
  show "- 1022 \<le> e" by (simp add: e_def)
  show "2 ^ 52 \<le> m" if "- 1022 < e"
  proof -
    from that have "e = binary_exponent \<bar>x\<bar>" by (simp add: e_def max_def split: if_splits)
    with b have "pow2 e \<le> \<bar>x\<bar>" by simp
    moreover have "pow2 e = 2 ^ 52 * ?u"
      using pow2_unshift [of e 52] by simp
    ultimately have "2 ^ 52 \<le> \<bar>x\<bar> / ?u" using u by (simp add: field_simps)
    then show ?thesis
      unfolding m_def using round_half_even_mono_int(1) [of "2 ^ 52"] by simp
  qed
qed

lemma fl_of_float_lt:
  assumes m: "0 < m" "m < 2 ^ 53" and e: "- 1022 \<le> e" and n: "- 1022 < e \<Longrightarrow> 2 ^ 52 \<le> m"
  shows "fl (of_int m * pow2 (e - 52)) = of_int m * pow2 (e - 52)"
proof -
  let ?u = "pow2 (e - 52)"
  let ?x = "of_int m * ?u"
  have u: "0 < ?u" by (rule pow2_pos)
  with m(1) have x: "0 < ?x" by simp
  have pe: "pow2 e = 2 ^ 52 * ?u" using pow2_unshift [of e 52] by simp
  have pe1: "pow2 (e + 1) = 2 ^ 53 * ?u" using pow2_unshift [of "e + 1" 53] by simp
  have div: "\<bar>?x\<bar> / ?u = of_int m" using u m(1) by simp
  have "binary_exponent ?x \<le> e"
  proof -
    from m(2) have "of_int m < (2 :: real) ^ 53"
      by (metis of_int_less_iff of_int_numeral of_int_power)
    then have "?x < pow2 (e + 1)" using u by (simp add: pe1)
    moreover from binary_exponent_bounds [OF x] have "pow2 (binary_exponent ?x) \<le> ?x" by simp
    ultimately have "pow2 (binary_exponent ?x) < pow2 (e + 1)" by linarith
    then have "binary_exponent ?x < e + 1"
      using pow2_mono [of "e + 1" "binary_exponent ?x"] by force
    then show ?thesis by simp
  qed
  moreover have "e \<le> binary_exponent ?x" if "- 1022 < e"
  proof -
    from n [OF that] have "(2 :: real) ^ 52 \<le> of_int m"
      by (metis of_int_le_iff of_int_numeral of_int_power)
    then have "pow2 e \<le> ?x" using u by (simp add: pe)
    moreover from binary_exponent_bounds [OF x] have "?x < pow2 (binary_exponent ?x + 1)"
      by simp
    ultimately have "pow2 e < pow2 (binary_exponent ?x + 1)" by linarith
    then have "e < binary_exponent ?x + 1"
      using pow2_mono [of "binary_exponent ?x + 1" e] by force
    then show ?thesis by simp
  qed
  ultimately have "max (binary_exponent ?x) (- 1022) = e" using e by (cases "- 1022 < e") auto
  then have "max (binary_exponent \<bar>?x\<bar>) (- 1022) = e" using x by simp
  with div show ?thesis
    using x m(1) by (simp add: fl_def Let_def round_half_even_of_int)
qed

lemma fl_of_float:
  assumes m: "0 < m" "m \<le> 2 ^ 53" and e: "- 1022 \<le> e" and n: "- 1022 < e \<Longrightarrow> 2 ^ 52 \<le> m"
  shows "fl (of_int m * pow2 (e - 52)) = of_int m * pow2 (e - 52)"
proof (cases "m = 2 ^ 53")
  case False
  with m(2) have "m < 2 ^ 53" by simp
  from fl_of_float_lt [OF m(1) this e n] show ?thesis by simp
next
  case True
  have "pow2 (e + 1 - 52) = 2 * pow2 (e - 52)" using pow2_unshift [of "e + 1 - 52" 1] by simp
  then have eq: "of_int m * pow2 (e - 52) = of_int (2 ^ 52) * pow2 (e + 1 - 52)"
    by (simp add: True)
  have "fl (of_int (2 ^ 52) * pow2 (e + 1 - 52)) = of_int (2 ^ 52) * pow2 (e + 1 - 52)"
    by (rule fl_of_float_lt) (use e in simp_all)
  then show ?thesis by (simp only: eq)
qed

lemma fl_idem: "fl (fl x) = fl x"
proof (cases "x = 0")
  case True
  then show ?thesis by (simp add: fl_def)
next
  case False
  define e where "e = max (binary_exponent \<bar>x\<bar>) (- 1022)"
  define m where "m = round_half_even (\<bar>x\<bar> / pow2 (e - 52))"
  note f = fl_nonzero_form [OF False, folded e_def m_def]
  show ?thesis
  proof (cases "m = 0")
    case True
    with f(1) show ?thesis by (simp add: fl_def)
  next
    case m0: False
    with f(2) have mpos: "0 < m" by simp
    from fl_of_float [OF mpos f(3) f(5) f(4)]
    have pos: "fl (of_int m * pow2 (e - 52)) = of_int m * pow2 (e - 52)" by simp
    have neg: "fl (- y) = - fl y" for y
      by (simp add: fl_def Let_def)
    from False consider "0 < x" | "x < 0" by linarith
    then show ?thesis
    proof cases
      case 1
      with f(1) pos show ?thesis by simp
    next
      case 2
      with f(1) have "fl x = - (of_int m * pow2 (e - 52))" by simp
      with pos neg show ?thesis by simp
    qed
  qed
qed

lemma float_mul_is_float: "fl (float_mul x y) = float_mul x y"
  by (simp add: float_mul_def fl_idem)

lemma float_add_is_float: "fl (float_add x y) = float_add x y"
  by (simp add: float_add_def fl_idem)

lemma py_round1_near: "\<bar>py_round1 x - fl x\<bar> \<le> 1 / 20"
  using round_half_even_near [of "fl x * 10"] by (simp add: py_round1_def field_simps)

lemma py_round1_tenths: "\<exists>k :: int. py_round1 x = of_int k / 10"
  unfolding py_round1_def by blast

lemmas float_eval =
  py_round1_def float_mul_def float_add_def fl_def binary_exponent_def pow2_def
  round_half_even_def Let_def compute_floorlog

text \<open>
  C4: the weighted parts are the float products of the scores with 0.75 and 0.25, each
  rounded to one decimal; the combined points are the float sum of the two rounded parts,
  rounded to one decimal again; the thesis and defense grades are looked up from the
  unweighted scores and the combined grade from the combined points. Each of the three
  point values is a multiple of one tenth within one twentieth of what it rounds. Rounding
  the sum of the rounded parts is not rounding the weighted sum itself (scores 1 and 3 give
  1.6, not 1.5), and the second rounding is not idle (for scores 1 and 11.2 the float sum
  of 0.8 and 2.8 is 3.5999999999999996, which is not the float 3.6 returned).
\<close>

theorem compute_weighted_grade_fields:
  "weighted_thesis (compute_weighted_grade a b) = py_round1 (float_mul a 0.75)
   \<and> weighted_defense (compute_weighted_grade a b) = py_round1 (float_mul b 0.25)
   \<and> combined_points (compute_weighted_grade a b)
       = py_round1 (float_add (weighted_thesis (compute_weighted_grade a b))
                      (weighted_defense (compute_weighted_grade a b)))
   \<and> thesis_grade (compute_weighted_grade a b) = convert_points_to_grade (Some a)
   \<and> defense_grade (compute_weighted_grade a b) = convert_points_to_grade (Some b)
   \<and> combined_grade (compute_weighted_grade a b)
       = convert_points_to_grade (Some (combined_points (compute_weighted_grade a b)))
   \<and> (\<exists>k :: int. weighted_thesis (compute_weighted_grade a b) = of_int k / 10)
   \<and> (\<exists>k :: int. weighted_defense (compute_weighted_grade a b) = of_int k / 10)
   \<and> (\<exists>k :: int. combined_points (compute_weighted_grade a b) = of_int k / 10)
   \<and> \<bar>weighted_thesis (compute_weighted_grade a b) - float_mul a 0.75\<bar> \<le> 1 / 20
   \<and> \<bar>weighted_defense (compute_weighted_grade a b) - float_mul b 0.25\<bar> \<le> 1 / 20
   \<and> \<bar>combined_points (compute_weighted_grade a b)
        - float_add (weighted_thesis (compute_weighted_grade a b))
            (weighted_defense (compute_weighted_grade a b))\<bar> \<le> 1 / 20
   \<and> combined_points (compute_weighted_grade 1 3) = 1.6
   \<and> py_round1 (float_add (float_mul 1 0.75) (float_mul 3 0.25)) = 1.5
   \<and> weighted_thesis (compute_weighted_grade 1 11.2) = 0.8
   \<and> weighted_defense (compute_weighted_grade 1 11.2) = 2.8
   \<and> float_add 0.8 2.8 = 8106479329266892 / 2 ^ 51
   \<and> fl 3.6 = 8106479329266893 / 2 ^ 51
   \<and> combined_points (compute_weighted_grade 1 11.2) = 3.6"
proof -
  have fields:
    "weighted_thesis (compute_weighted_grade a b) = py_round1 (float_mul a 0.75)"
    "weighted_defense (compute_weighted_grade a b) = py_round1 (float_mul b 0.25)"
    "combined_points (compute_weighted_grade a b)
       = py_round1 (float_add (weighted_thesis (compute_weighted_grade a b))
                      (weighted_defense (compute_weighted_grade a b)))"
    "thesis_grade (compute_weighted_grade a b) = convert_points_to_grade (Some a)"
    "defense_grade (compute_weighted_grade a b) = convert_points_to_grade (Some b)"
    "combined_grade (compute_weighted_grade a b)
       = convert_points_to_grade (Some (combined_points (compute_weighted_grade a b)))"
    by (simp_all add: compute_weighted_grade_def Let_def)
  have tenths:
    "\<exists>k :: int. weighted_thesis (compute_weighted_grade a b) = of_int k / 10"
    "\<exists>k :: int. weighted_defense (compute_weighted_grade a b) = of_int k / 10"
    "\<exists>k :: int. combined_points (compute_weighted_grade a b) = of_int k / 10"
    unfolding fields(1,2,3) by (rule py_round1_tenths)+
  have near:
    "\<bar>weighted_thesis (compute_weighted_grade a b) - float_mul a 0.75\<bar> \<le> 1 / 20"
    "\<bar>weighted_defense (compute_weighted_grade a b) - float_mul b 0.25\<bar> \<le> 1 / 20"
    "\<bar>combined_points (compute_weighted_grade a b)
        - float_add (weighted_thesis (compute_weighted_grade a b))
            (weighted_defense (compute_weighted_grade a b))\<bar> \<le> 1 / 20"
    using py_round1_near [of "float_mul a 0.75"] py_round1_near [of "float_mul b 0.25"]
      py_round1_near [of "float_add (weighted_thesis (compute_weighted_grade a b))
            (weighted_defense (compute_weighted_grade a b))"]
    by (simp_all only: fields(1,2) float_mul_is_float float_add_is_float
        fields(3) [unfolded fields(1,2)])
  have w: "py_round1 (float_mul 1 0.75) = 0.8" "py_round1 (float_mul 3 0.25) = 0.8"
    "py_round1 (float_add 0.8 0.8) = 1.6" "py_round1 (float_mul 11.2 0.25) = 2.8"
    "py_round1 (float_add 0.8 2.8) = 3.6"
    by (simp_all add: float_eval)
  have ex1: "combined_points (compute_weighted_grade 1 3) = 1.6"
    by (simp only: compute_weighted_grade_def Let_def weighted_grade.simps w)
  have ex2: "py_round1 (float_add (float_mul 1 0.75) (float_mul 3 0.25)) = 1.5"
    by (simp add: float_eval)
  have ex3: "weighted_thesis (compute_weighted_grade 1 11.2) = 0.8"
    by (simp only: compute_weighted_grade_def Let_def weighted_grade.simps w)
  have ex4: "weighted_defense (compute_weighted_grade 1 11.2) = 2.8"
    by (simp only: compute_weighted_grade_def Let_def weighted_grade.simps w)
  have ex5: "float_add 0.8 2.8 = 8106479329266892 / 2 ^ 51"
    by (simp add: float_eval)
  have ex6: "fl 3.6 = 8106479329266893 / 2 ^ 51"
    by (simp add: float_eval)
  have ex7: "combined_points (compute_weighted_grade 1 11.2) = 3.6"
    by (simp only: compute_weighted_grade_def Let_def weighted_grade.simps w)
  show ?thesis
    by (intro conjI) (fact fields tenths near ex1 ex2 ex3 ex4 ex5 ex6 ex7)+
qed

theorem compute_weighted_grade_fields_witness:
  "weighted_thesis (compute_weighted_grade 33.3 99.8) = 25.0
   \<and> weighted_defense (compute_weighted_grade 33.3 99.8) = 24.9
   \<and> combined_points (compute_weighted_grade 33.3 99.8) = 49.9
   \<and> combined_grade (compute_weighted_grade 33.3 99.8) = Some 5.0
   \<and> weighted_defense (compute_weighted_grade 0 1.4) = 0.3
   \<and> weighted_thesis (compute_weighted_grade 50 50) = 37.5
   \<and> weighted_defense (compute_weighted_grade 50 50) = 12.5
   \<and> combined_points (compute_weighted_grade 50 50) = 50.0
   \<and> combined_grade (compute_weighted_grade 50 50) = Some 4.0"
proof -
  have w: "py_round1 (float_mul 33.3 0.75) = 25.0" "py_round1 (float_mul 99.8 0.25) = 24.9"
    "py_round1 (float_add 25.0 24.9) = 49.9" "py_round1 (float_mul 1.4 0.25) = 0.3"
    "py_round1 (float_mul 50 0.75) = 37.5" "py_round1 (float_mul 50 0.25) = 12.5"
    "py_round1 (float_add 37.5 12.5) = 50.0"
    by (simp_all add: float_eval)
  have g: "convert_points_to_grade (Some 49.9) = Some 5.0"
    "convert_points_to_grade (Some 50.0) = Some 4.0"
    by (simp_all add: convert_points_to_grade_def GRADE_LOOKUP_def)
  note a = compute_weighted_grade_fields [of "33.3" "99.8"]
  note b = compute_weighted_grade_fields [of 0 "1.4"]
  note c = compute_weighted_grade_fields [of 50 50]
  have e1: "weighted_thesis (compute_weighted_grade 33.3 99.8) = 25.0"
    using a by (simp only: w)
  have e2: "weighted_defense (compute_weighted_grade 33.3 99.8) = 24.9"
    using a by (simp only: w)
  have e3: "combined_points (compute_weighted_grade 33.3 99.8) = 49.9"
    using a by (simp only: e1 e2 w)
  have e4: "combined_grade (compute_weighted_grade 33.3 99.8) = Some 5.0"
    using a by (simp only: e3 g)
  have e5: "weighted_defense (compute_weighted_grade 0 1.4) = 0.3"
    using b by (simp only: w)
  have e6: "weighted_thesis (compute_weighted_grade 50 50) = 37.5"
    using c by (simp only: w)
  have e7: "weighted_defense (compute_weighted_grade 50 50) = 12.5"
    using c by (simp only: w)
  have e8: "combined_points (compute_weighted_grade 50 50) = 50.0"
    using c by (simp only: e6 e7 w)
  have e9: "combined_grade (compute_weighted_grade 50 50) = Some 4.0"
    using c by (simp only: e8 g)
  show ?thesis
    by (intro conjI) (fact e1 e2 e3 e4 e5 e6 e7 e8 e9)+
qed

text \<open>
  C8: every score above 100 gets the grade of the first row of the table, 1.0; the input
  is not rejected.
\<close>

theorem convert_points_to_grade_above_100:
  "100 < p \<Longrightarrow> convert_points_to_grade (Some p) = Some (snd (hd GRADE_LOOKUP))
     \<and> snd (hd GRADE_LOOKUP) = 1.0"
  by (simp add: convert_points_to_grade_def GRADE_LOOKUP_def)

theorem convert_points_to_grade_above_100_witness:
  "(100::real) < 250 \<and> convert_points_to_grade (Some 250) = Some 1.0"
  using convert_points_to_grade_above_100 [of 250]
  by simp

text \<open>
  C9: a missing score gives a missing grade: the result for \<open>None\<close> is \<open>None\<close>, and so it is
  not the fail grade 5.0.
\<close>

theorem convert_points_to_grade_None:
  "convert_points_to_grade None = None \<and> convert_points_to_grade None \<noteq> Some 5.0"
  by (simp add: convert_points_to_grade_def)

section \<open>Properties of strings and of the matcher\<close>

lemma clean_line_trimmed: "clean_line l \<Longrightarrow> trimmed l"
  by (simp add: clean_line_def trimmed_def)

lemma trimmed_Nil: "trimmed []"
  by (simp add: trimmed_def)

lemma dropWhile_rev_hd:
  assumes "dropWhile P (rev xs) \<noteq> []"
  shows "hd (rev (dropWhile P (rev xs))) = hd xs"
proof -
  have "rev xs = takeWhile P (rev xs) @ dropWhile P (rev xs)" by simp
  then have "xs = rev (dropWhile P (rev xs)) @ rev (takeWhile P (rev xs))"
    by (metis rev_append rev_rev_ident)
  with assms show ?thesis by (metis hd_append2 rev_is_Nil_conv)
qed

lemma strip_clean: "strip s \<noteq> [] \<Longrightarrow> clean_line (strip s)"
proof -
  assume ne: "strip s \<noteq> []"
  let ?d = "dropWhile is_space s"
  let ?t = "dropWhile is_space (rev ?d)"
  from ne have t: "?t \<noteq> []" by (simp add: strip_def)
  then have "\<not> is_space (hd ?t)" by (rule hd_dropWhile)
  with t have last_ok: "\<not> is_space (last (strip s))" by (simp add: strip_def last_rev)
  from t have d: "?d \<noteq> []" by (cases "?d = []") simp_all
  then have h: "\<not> is_space (hd ?d)" by (rule hd_dropWhile)
  from dropWhile_rev_hd [OF t] have "hd (strip s) = hd ?d" by (simp add: strip_def)
  with h last_ok ne show ?thesis by (simp add: clean_line_def)
qed

lemma strip_trimmed: "trimmed (strip s)"
  using strip_clean [of s] by (cases "strip s = []") (auto simp: trimmed_def clean_line_def)

lemma strip_of_clean: "clean_line l \<Longrightarrow> strip l = l"
proof -
  assume c: "clean_line l"
  then obtain x xs where l: "l = x # xs" and x: "\<not> is_space x"
    by (cases l) (auto simp: clean_line_def)
  then have d: "dropWhile is_space l = l" by simp
  from c have "rev l \<noteq> []" and "\<not> is_space (hd (rev l))"
    by (auto simp: clean_line_def hd_rev)
  then have "dropWhile is_space (rev l) = rev l" by (cases "rev l") auto
  with d show ?thesis by (simp add: strip_def)
qed

lemma split_lines_clean: "l \<in> set (split_lines raw) \<Longrightarrow> clean_line l"
  by (auto simp: split_lines_def intro: strip_clean)

lemma join_space_clean:
  "ls \<noteq> [] \<Longrightarrow> \<forall>l \<in> set ls. clean_line l \<Longrightarrow> clean_line (join '' '' ls)"
proof (induction "'' ''" ls rule: join.induct)
  case 1
  then show ?case by simp
next
  case (2 x)
  then show ?case by simp
next
  case (3 x y zs)
  then have "clean_line (join '' '' (y # zs))" and "clean_line x" by auto
  then show ?case by (auto simp: clean_line_def)
qed

lemma rx_run_extends:
  "(b', s', g') \<in> set (rx_run r (b, s, g)) \<Longrightarrow> \<exists>u. b' = rev u @ b \<and> s = u @ s'"
proof (induction r arbitrary: b s g b' s' g')
  case (Seq r1 r2)
  from Seq.prems obtain b1 s1 g1 where
    m1: "(b1, s1, g1) \<in> set (rx_run r1 (b, s, g))" and
    m2: "(b', s', g') \<in> set (rx_run r2 (b1, s1, g1))"
    by auto
  from Seq.IH(1) [OF m1] obtain u1 where u1: "b1 = rev u1 @ b" "s = u1 @ s1" by blast
  from Seq.IH(2) [OF m2] obtain u2 where u2: "b' = rev u2 @ b1" "s1 = u2 @ s'" by blast
  from u1 u2 have "b' = rev (u1 @ u2) @ b \<and> s = (u1 @ u2) @ s'" by simp
  then show ?case by blast
next
  case (Alt r1 r2)
  then show ?case by auto
next
  case (Opt r)
  then show ?case by auto
next
  case (Rep P lo hi)
  then obtain k where "b' = rev (take k s) @ b" "s' = drop k s"
    by (auto simp: Let_def simp del: upt_Suc)
  then have "b' = rev (take k s) @ b \<and> s = take k s @ s'" by simp
  then show ?case by blast
next
  case (Grp n r)
  then obtain g0 where "(b', s', g0) \<in> set (rx_run r (b, s, g))" by auto
  from Grp.IH [OF this] show ?case .
qed (auto split: list.splits if_splits)

lemma matched_text_append: "matched_text b (rev u @ b) = u"
  by (simp add: matched_text_def)

lemma starts_with_LitI: "starts_with (\<lambda>x. ascii_lower x = ascii_lower c) (LitI c)"
  by (auto simp: starts_with_def split: list.splits if_splits)

lemma starts_with_Seq: "starts_with Q r1 \<Longrightarrow> starts_with Q (Seq r1 r2)"
  by (fastforce simp: starts_with_def)

lemma starts_with_Alt: "starts_with Q r1 \<Longrightarrow> starts_with Q r2 \<Longrightarrow> starts_with Q (Alt r1 r2)"
  by (fastforce simp: starts_with_def)

lemma rx_run_Grp_mem:
  "st' \<in> set (rx_run (Grp n r) (b, s, g)) \<Longrightarrow> \<exists>st''. st'' \<in> set (rx_run r (b, s, g))"
  by auto

lemma starts_with_Grp: "starts_with Q r \<Longrightarrow> starts_with Q (Grp n r)"
  unfolding starts_with_def by (blast dest: rx_run_Grp_mem)

lemma starts_with_WordB_Seq: "starts_with Q r \<Longrightarrow> starts_with Q (Seq WordB r)"
  by (fastforce simp: starts_with_def split: if_splits)

lemma starts_with_mono: "starts_with Q r \<Longrightarrow> (\<And>x. Q x \<Longrightarrow> Q' x) \<Longrightarrow> starts_with Q' r"
  by (fastforce simp: starts_with_def)

lemma is_space_ascii_lower: "is_space x \<Longrightarrow> ascii_lower x = x"
  by (auto simp: is_space_def ascii_lower_def Let_def)

lemma letter_not_space:
  "ascii_lower x = ascii_lower c \<Longrightarrow> \<not> is_space (ascii_lower c) \<Longrightarrow> \<not> is_space x"
  using is_space_ascii_lower by fastforce

lemma starts_with_LitI_not_space:
  "\<not> is_space (ascii_lower c) \<Longrightarrow> starts_with (\<lambda>x. \<not> is_space x) (LitI c)"
  by (rule starts_with_mono [OF starts_with_LitI]) (rule letter_not_space)

lemma rx_run_Rep_mem:
  assumes "(b', s', g') \<in> set (rx_run (Rep P lo hi) (b, s, g))"
  shows "\<exists>k. lo \<le> k \<and> k \<le> length (takeWhile P s) \<and> b' = rev (take k s) @ b
           \<and> s' = drop k s \<and> g' = g"
proof -
  define m where "m = (case hi of None \<Rightarrow> length (takeWhile P s)
                       | Some h \<Rightarrow> min (length (takeWhile P s)) h)"
  from assms have "(b', s', g') \<in> (\<lambda>k. (rev (take k s) @ b, drop k s, g)) ` {lo ..< Suc m}"
    by (simp add: Let_def m_def del: upt_Suc)
  then obtain k where "lo \<le> k" "k \<le> m" "b' = rev (take k s) @ b" "s' = drop k s" "g' = g"
    by auto
  moreover have "m \<le> length (takeWhile P s)" by (simp add: m_def split: option.splits)
  ultimately show ?thesis by auto
qed

lemma ends_with_Rep:
  "0 < lo \<Longrightarrow> ends_with P (Rep P lo hi)"
proof -
  assume lo: "0 < lo"
  { fix b s g b' s' g'
    assume "(b', s', g') \<in> set (rx_run (Rep P lo hi) (b, s, g))"
    from rx_run_Rep_mem [OF this]
    obtain k where k: "lo \<le> k" "k \<le> length (takeWhile P s)" and b': "b' = rev (take k s) @ b"
      by blast
    from k have ks: "k \<le> length s" using length_takeWhile_le [of P s] by simp
    from k lo have kpos: "0 < k" by simp
    with ks have ne: "take k s \<noteq> []" by auto
    have tk: "take k s = take k (takeWhile P s)"
      using k(2) by (metis takeWhile_dropWhile_id take_append diff_is_0_eq' take_0
          append_Nil2)
    have "last (take k s) \<in> set (takeWhile P s)"
      using ne tk by (metis in_set_takeD last_in_set)
    then have "P (last (take k s))" by (rule set_takeWhileD [THEN conjunct2])
    with ne b' ks kpos have "length b < length b' \<and> P (hd b')"
      by (simp add: hd_append hd_rev)
  }
  then show ?thesis unfolding ends_with_def by blast
qed

lemma ends_with_Grp: "ends_with Q r \<Longrightarrow> ends_with Q (Grp n r)"
  by (fastforce simp: ends_with_def)

lemma ends_with_Seq_WordB: "ends_with Q r \<Longrightarrow> ends_with Q (Seq r WordB)"
  by (fastforce simp: ends_with_def split: if_splits)

lemma ends_with_Seq: "ends_with Q r2 \<Longrightarrow> ends_with Q (Seq r1 r2)"
proof -
  assume e: "ends_with Q r2"
  { fix b s g b' s' g'
    assume "(b', s', g') \<in> set (rx_run (Seq r1 r2) (b, s, g))"
    then obtain b1 s1 g1 where
      m1: "(b1, s1, g1) \<in> set (rx_run r1 (b, s, g))" and
      m2: "(b', s', g') \<in> set (rx_run r2 (b1, s1, g1))"
      by auto
    from rx_run_extends [OF m1] have "length b \<le> length b1" by auto
    moreover from e m2 have "length b1 < length b' \<and> Q (hd b')"
      unfolding ends_with_def by blast
    ultimately have "length b < length b' \<and> Q (hd b')" by simp
  }
  then show ?thesis unfolding ends_with_def by blast
qed

lemma ends_with_mono: "ends_with Q r \<Longrightarrow> (\<And>x. Q x \<Longrightarrow> Q' x) \<Longrightarrow> ends_with Q' r"
  unfolding ends_with_def by blast

lemma decimal_not_space: "is_decimal x \<Longrightarrow> \<not> is_space x"
  by (auto simp: is_decimal_def is_space_def Let_def)

lemma RE_DATE_LONG_starts: "starts_with (\<lambda>x. \<not> is_space x) RE_DATE_LONG"
  unfolding RE_DATE_LONG_def month_def litsI_def
  by (simp, intro starts_with_WordB_Seq starts_with_Seq starts_with_Grp starts_with_Alt
      starts_with_LitI_not_space)
    (simp_all add: ascii_lower_def is_space_def)

lemma RE_DATE_LONG_ends: "ends_with (\<lambda>x. \<not> is_space x) RE_DATE_LONG"
  unfolding RE_DATE_LONG_def
  by (simp, intro ends_with_Seq ends_with_Seq_WordB ends_with_Grp
      ends_with_mono [OF ends_with_Rep])
    (simp_all add: decimal_not_space)

lemma match_at_clean:
  assumes st: "starts_with (\<lambda>x. \<not> is_space x) r" and en: "ends_with (\<lambda>x. \<not> is_space x) r"
    and m: "match_at r b s = Some m"
  shows "clean_line (m 0)"
proof -
  from m obtain b' s' g' rest where run: "rx_run r (b, s, no_groups) = (b', s', g') # rest"
    and m0: "m 0 = matched_text b b'"
    by (auto simp: match_at_def split: list.splits)
  then have mem: "(b', s', g') \<in> set (rx_run r (b, s, no_groups))" by simp
  from rx_run_extends [OF mem] obtain u where u: "b' = rev u @ b" "s = u @ s'" by blast
  from st mem have s: "s \<noteq> [] \<and> \<not> is_space (hd s)" unfolding starts_with_def by blast
  from en mem have e: "length b < length b' \<and> \<not> is_space (hd b')"
    unfolding ends_with_def by blast
  from e u have ne: "u \<noteq> []" by auto
  with u s e have "\<not> is_space (hd u) \<and> \<not> is_space (last u)"
    by (simp add: hd_append hd_rev)
  with ne m0 u show ?thesis by (simp add: matched_text_append clean_line_def)
qed

lemma search_from_match_at:
  "search_from r b s = Some m \<Longrightarrow> \<exists>b' s'. match_at r b' s' = Some m"
  by (induction r b s rule: search_from.induct) (auto split: option.splits)

lemma re_search_DATE_LONG_clean: "re_search RE_DATE_LONG s = Some m \<Longrightarrow> clean_line (m 0)"
  unfolding re_search_def
  by (blast dest: search_from_match_at intro: match_at_clean [OF RE_DATE_LONG_starts RE_DATE_LONG_ends])

lemma first_index_Some: "first_index P xs = Some i \<Longrightarrow> i < length xs \<and> P (xs ! i)"
  by (induction xs arbitrary: i) (auto split: if_splits)

lemma first_index_None: "first_index P xs = None \<Longrightarrow> \<forall>x \<in> set xs. \<not> P x"
  by (induction xs) (auto split: if_splits)

lemma first_match_Some:
  "first_match f xs = Some (i, m) \<Longrightarrow> i < length xs \<and> f (xs ! i) = Some m"
  by (induction xs arbitrary: i) (auto split: option.splits)

lemma Grp_Rep_group:
  assumes "(b', s', g') \<in> set (rx_run (Grp n (Rep P lo hi)) (b, s, g))" and "0 < lo"
  shows "g' n \<noteq> [] \<and> (\<forall>c \<in> set (g' n). P c)"
proof -
  from assms(1) obtain g0 where mem: "(b', s', g0) \<in> set (rx_run (Rep P lo hi) (b, s, g))"
    and g': "g' = g0(n := matched_text b b')"
    by auto
  from rx_run_Rep_mem [OF mem] obtain k where k: "lo \<le> k" "k \<le> length (takeWhile P s)"
    and b': "b' = rev (take k s) @ b" by blast
  from g' b' have gn: "g' n = take k s" by (simp add: matched_text_append)
  from k have ks: "k \<le> length s" using length_takeWhile_le [of P s] by simp
  have tk: "take k s = take k (takeWhile P s)"
    using k(2) by (metis takeWhile_dropWhile_id take_append diff_is_0_eq' take_0 append_Nil2)
  have "\<forall>c \<in> set (take k s). P c"
    unfolding tk by (metis in_set_takeD set_takeWhileD)
  moreover from k assms(2) ks have "take k s \<noteq> []" by auto
  ultimately show ?thesis by (simp add: gn)
qed

lemma decimals_clean: "s \<noteq> [] \<Longrightarrow> \<forall>c \<in> set s. is_decimal c \<Longrightarrow> clean_line s"
  by (simp add: clean_line_def decimal_not_space)

lemma match_at_ID_PAREN_clean:
  assumes "match_at RE_ID_PAREN b s = Some m"
  shows "clean_line (m 1)"
proof -
  from assms obtain b' s' g' rest where
    run: "rx_run RE_ID_PAREN (b, s, no_groups) = (b', s', g') # rest" and m: "m = g'(0 := matched_text b b')"
    by (auto simp: match_at_def split: list.splits)
  then have "(b', s', g') \<in> set (rx_run RE_ID_PAREN (b, s, no_groups))" by simp
  then obtain b1 s1 g1 b2 s2 where
    m2: "(b2, s2, g') \<in> set (rx_run (Grp 1 (Rep is_decimal 6 (Some 10))) (b1, s1, g1))"
    by (auto simp: RE_ID_PAREN_def split: list.splits if_splits simp del: rx_run.simps(8,11))
  from Grp_Rep_group [OF m2] have "g' 1 \<noteq> [] \<and> (\<forall>c \<in> set (g' 1). is_decimal c)" by simp
  with m show ?thesis by (simp add: decimals_clean)
qed

lemma re_search_ID_PAREN_clean: "re_search RE_ID_PAREN s = Some m \<Longrightarrow> clean_line (m 1)"
  unfolding re_search_def
  by (blast dest: search_from_match_at intro: match_at_ID_PAREN_clean)

lemma advisor_step_trimmed: "all_trimmed r \<Longrightarrow> all_trimmed (advisor_step r lines i)"
  by (simp add: advisor_step_def all_trimmed_def strip_trimmed Let_def)

lemma co_advisor_step_trimmed:
  "all_trimmed r \<Longrightarrow> \<forall>l \<in> set lines. clean_line l \<Longrightarrow> all_trimmed (fst (co_advisor_step r lines i))"
  by (simp add: co_advisor_step_def all_trimmed_def Let_def clean_line_trimmed)

lemma loc_date_step_trimmed:
  "all_trimmed r \<Longrightarrow> \<forall>l \<in> set lines. clean_line l \<Longrightarrow> all_trimmed (loc_date_step r lines i)"
  by (simp add: loc_date_step_def all_trimmed_def Let_def clean_line_trimmed strip_trimmed
      split: option.splits)

lemma name_step_trimmed:
  "all_trimmed r \<Longrightarrow> \<forall>l \<in> set lines. clean_line l \<Longrightarrow> all_trimmed (name_step r lines i)"
  by (simp add: name_step_def all_trimmed_def Let_def clean_line_trimmed)

lemma id_step_trimmed:
  "all_trimmed r \<Longrightarrow> \<forall>l \<in> set lines. clean_line l \<Longrightarrow> all_trimmed (id_step r lines i)"
  by (auto simp: id_step_def all_trimmed_def Let_def clean_line_trimmed
      split: option.splits dest: re_search_ID_PAREN_clean)

section \<open>Properties of the title page extraction\<close>

lemma empty_result_trimmed: "all_trimmed empty_result"
  by (simp add: all_trimmed_def empty_result_def trimmed_Nil)

lemma title_lines_from_subset: "set (title_lines_from lines start) \<subseteq> set lines"
proof
  fix l
  assume "l \<in> set (title_lines_from lines start)"
  then have "l \<in> set (drop start lines)"
    unfolding title_lines_from_def by (rule set_takeWhileD [THEN conjunct1])
  then show "l \<in> set lines" by (rule in_set_dropD)
qed

lemma structural_pass_trimmed:
  assumes "\<forall>l \<in> set lines. clean_line l"
  shows "all_trimmed (structural_pass lines)"
proof -
  let ?start = "header_start lines"
  let ?tl = "title_lines_from lines ?start"
  let ?r1 = "if ?tl \<noteq> [] then empty_result\<lparr>thesis_title := join '' '' ?tl\<rparr> else empty_result"
  have "all_trimmed ?r1"
  proof (cases "?tl = []")
    case True
    then show ?thesis by (simp add: empty_result_trimmed)
  next
    case False
    from assms title_lines_from_subset have "\<forall>l \<in> set ?tl. clean_line l" by blast
    from join_space_clean [OF False this] empty_result_trimmed False show ?thesis
      by (simp add: all_trimmed_def clean_line_trimmed)
  qed
  then have r1: "all_trimmed ?r1" .
  let ?ai = "advisor_index lines (chair_index lines ?start)"
  let ?r2 = "advisor_step ?r1 lines ?ai"
  let ?co = "co_advisor_step ?r2 lines ?ai"
  let ?r4 = "loc_date_step (fst ?co) lines (snd ?co + 1)"
  let ?r5 = "name_step ?r4 lines (snd ?co + 1 + 1)"
  have r2: "all_trimmed ?r2" by (rule advisor_step_trimmed [OF r1])
  have r3: "all_trimmed (fst ?co)" by (rule co_advisor_step_trimmed [OF r2 assms])
  have r4: "all_trimmed ?r4" by (rule loc_date_step_trimmed [OF r3 assms])
  have r5: "all_trimmed ?r5" by (rule name_step_trimmed [OF r4 assms])
  have "all_trimmed (id_step ?r5 lines (snd ?co + 1 + 1 + 1))"
    by (rule id_step_trimmed [OF r5 assms])
  then show ?thesis
    by (simp only: structural_pass_def Let_def split_beta)
qed

lemma name_before_trimmed:
  "all_trimmed r \<Longrightarrow> \<forall>l \<in> set lines. clean_line l \<Longrightarrow> i < length lines
     \<Longrightarrow> all_trimmed (name_before r lines i)"
  by (simp add: name_before_def all_trimmed_def Let_def clean_line_trimmed trimmed_Nil)

lemma fallback_id_line_trimmed:
  assumes "all_trimmed r" and "\<forall>l \<in> set lines. clean_line l"
  shows "all_trimmed (fallback_id_line r lines)"
proof (cases "first_index (\<lambda>line. re_fullmatch RE_ID_LINE line \<noteq> None) lines")
  case None
  with assms show ?thesis by (simp add: fallback_id_line_def)
next
  case (Some i)
  from first_index_Some [OF Some] have i: "i < length lines" by simp
  with assms have "all_trimmed (r\<lparr>student_id := lines ! i\<rparr>)"
    by (simp add: all_trimmed_def clean_line_trimmed)
  from name_before_trimmed [OF this assms(2) i] Some show ?thesis
    by (simp add: fallback_id_line_def)
qed

lemma fallback_id_paren_trimmed:
  assumes "all_trimmed r" and "\<forall>l \<in> set lines. clean_line l"
  shows "all_trimmed (fallback_id_paren r lines)"
proof (cases "first_match (re_search RE_ID_PAREN) lines")
  case None
  with assms show ?thesis by (simp add: fallback_id_paren_def)
next
  case (Some im)
  obtain i m where im: "im = (i, m)" by (cases im)
  from first_match_Some [OF Some [unfolded im]]
  have i: "i < length lines" and m: "re_search RE_ID_PAREN (lines ! i) = Some m" by simp_all
  from re_search_ID_PAREN_clean [OF m] assms have "all_trimmed (r\<lparr>student_id := m 1\<rparr>)"
    by (simp add: all_trimmed_def clean_line_trimmed)
  from name_before_trimmed [OF this assms(2) i] Some im show ?thesis
    by (simp add: fallback_id_paren_def)
qed

lemma fallback_pass_trimmed:
  assumes "all_trimmed r" and "\<forall>l \<in> set lines. clean_line l"
  shows "all_trimmed (fallback_pass r lines raw start)"
proof -
  let ?r1 = "if student_id r = []
             then (let r' = fallback_id_line r lines
                   in if student_id r' = [] then fallback_id_paren r' lines else r')
             else r"
  let ?r2 = "if submission_date ?r1 = []
             then (case re_search RE_DATE_LONG raw of
                     Some m \<Rightarrow> ?r1\<lparr>submission_date := m 0\<rparr>
                   | None \<Rightarrow> ?r1)
             else ?r1"
  have r1: "all_trimmed ?r1"
    using assms by (simp add: Let_def fallback_id_line_trimmed fallback_id_paren_trimmed)
  have r2: "all_trimmed ?r2"
    using r1 by (auto simp: all_trimmed_def clean_line_trimmed split: option.splits
        dest: re_search_DATE_LONG_clean)
  have nth: "\<And>i. i < length lines \<Longrightarrow> clean_line (lines ! i)"
    using assms(2) by (metis nth_mem)
  have "1 < length lines \<Longrightarrow> clean_line (lines ! 1) \<and> clean_line (lines ! 0)"
    using nth [of 1] nth [of 0] by linarith
  with r2 have "all_trimmed (if thesis_title ?r2 = [] \<and> 1 < length lines
         then ?r2\<lparr>thesis_title := (if 0 < start then lines ! 1 else lines ! 0)\<rparr>
         else ?r2)"
    by (simp add: all_trimmed_def clean_line_trimmed)
  then show ?thesis by (simp add: fallback_pass_def Let_def)
qed

text \<open>
  C7: for every page text, each of the seven fields of the record returned is the empty
  string or a string that neither starts nor ends with a whitespace character. The record
  type has all seven fields, each a string, so no field is ever missing: an absent value
  is the empty string.
\<close>

theorem extract_title_page_fields_trimmed:
  "trimmed (thesis_title (extract_title_page_fields raw))
   \<and> trimmed (advisor (extract_title_page_fields raw))
   \<and> trimmed (co_advisor (extract_title_page_fields raw))
   \<and> trimmed (location (extract_title_page_fields raw))
   \<and> trimmed (submission_date (extract_title_page_fields raw))
   \<and> trimmed (student_name (extract_title_page_fields raw))
   \<and> trimmed (student_id (extract_title_page_fields raw))"
proof -
  have lines: "\<forall>l \<in> set (split_lines raw). clean_line l"
    by (simp add: split_lines_clean)
  have "all_trimmed (extract_title_page_fields raw)"
    unfolding extract_title_page_fields_def Let_def
    using fallback_pass_trimmed [OF structural_pass_trimmed [OF lines] lines]
    by (simp add: empty_result_trimmed)
  then show ?thesis by (simp add: all_trimmed_def)
qed

lemma name_before_fields:
  "thesis_title (name_before r lines i) = thesis_title r
   \<and> advisor (name_before r lines i) = advisor r
   \<and> co_advisor (name_before r lines i) = co_advisor r
   \<and> location (name_before r lines i) = location r
   \<and> submission_date (name_before r lines i) = submission_date r
   \<and> student_id (name_before r lines i) = student_id r
   \<and> (student_name r \<noteq> [] \<longrightarrow> student_name (name_before r lines i) = student_name r)"
  by (simp add: name_before_def Let_def)

lemma fallback_id_line_fields:
  "thesis_title (fallback_id_line r lines) = thesis_title r
   \<and> advisor (fallback_id_line r lines) = advisor r
   \<and> co_advisor (fallback_id_line r lines) = co_advisor r
   \<and> location (fallback_id_line r lines) = location r
   \<and> submission_date (fallback_id_line r lines) = submission_date r
   \<and> (student_name r \<noteq> [] \<longrightarrow> student_name (fallback_id_line r lines) = student_name r)"
  by (simp add: fallback_id_line_def name_before_fields split: option.splits)

lemma fallback_id_paren_fields:
  "thesis_title (fallback_id_paren r lines) = thesis_title r
   \<and> advisor (fallback_id_paren r lines) = advisor r
   \<and> co_advisor (fallback_id_paren r lines) = co_advisor r
   \<and> location (fallback_id_paren r lines) = location r
   \<and> submission_date (fallback_id_paren r lines) = submission_date r
   \<and> (student_name r \<noteq> [] \<longrightarrow> student_name (fallback_id_paren r lines) = student_name r)"
  by (simp add: fallback_id_paren_def name_before_fields split: option.splits prod.splits)

lemma fallback_pass_advisor: "advisor (fallback_pass r lines raw start) = advisor r"
  by (simp add: fallback_pass_def Let_def fallback_id_line_fields fallback_id_paren_fields
      split: option.splits)

text \<open>
  C6: the fallback scans never overwrite a field that is already filled: for every record,
  line sequence, raw text and header position, every field that is not empty before the
  fallbacks run has the same value afterwards.
\<close>

theorem fallback_pass_keeps_filled:
  "(thesis_title r \<noteq> [] \<longrightarrow> thesis_title (fallback_pass r lines raw start) = thesis_title r)
   \<and> (advisor r \<noteq> [] \<longrightarrow> advisor (fallback_pass r lines raw start) = advisor r)
   \<and> (co_advisor r \<noteq> [] \<longrightarrow> co_advisor (fallback_pass r lines raw start) = co_advisor r)
   \<and> (location r \<noteq> [] \<longrightarrow> location (fallback_pass r lines raw start) = location r)
   \<and> (submission_date r \<noteq> []
        \<longrightarrow> submission_date (fallback_pass r lines raw start) = submission_date r)
   \<and> (student_name r \<noteq> [] \<longrightarrow> student_name (fallback_pass r lines raw start) = student_name r)
   \<and> (student_id r \<noteq> [] \<longrightarrow> student_id (fallback_pass r lines raw start) = student_id r)"
  by (simp add: fallback_pass_def Let_def fallback_id_line_fields fallback_id_paren_fields
      split: option.splits)

lemma lits_Prof_no_match: "take 4 l \<noteq> ''Prof'' \<Longrightarrow> rx_run (lits ''Prof'') (b, l, g) = []"
  by (auto simp: lits_def split: list.splits)

lemma RE_PROF_PREFIX_no_match:
  "take 4 l \<noteq> ''Prof'' \<Longrightarrow> re_sub_start RE_PROF_PREFIX l = l"
  by (simp add: re_sub_start_def RE_PROF_PREFIX_def lits_Prof_no_match)

lemma co_advisor_step_advisor: "advisor (fst (co_advisor_step r lines i)) = advisor r"
  by (simp add: co_advisor_step_def Let_def)

lemma loc_date_step_advisor: "advisor (loc_date_step r lines i) = advisor r"
  by (simp add: loc_date_step_def Let_def split: option.splits)

lemma name_step_advisor: "advisor (name_step r lines i) = advisor r"
  by (simp add: name_step_def Let_def)

lemma id_step_advisor: "advisor (id_step r lines i) = advisor r"
  by (simp add: id_step_def Let_def split: option.splits)

lemma structural_pass_advisor:
  "advisor (structural_pass lines)
   = advisor (advisor_step
       (if title_lines_from lines (header_start lines) \<noteq> []
        then empty_result\<lparr>thesis_title := join '' '' (title_lines_from lines (header_start lines))\<rparr>
        else empty_result)
       lines (advisor_index lines (chair_index lines (header_start lines))))"
  by (simp only: structural_pass_def Let_def split_beta id_step_advisor name_step_advisor
      loc_date_step_advisor co_advisor_step_advisor)

text \<open>
  C10: the advisor line is found with a case-insensitive pattern, but its prefix is removed
  with a case-sensitive one. When the line found by the advisor step matches the Prof
  pattern and does not start with exactly \<open>Prof\<close>, nothing is removed: the advisor field
  is that line verbatim, with its prefix and any \<open>Dr.\<close> token after it.
\<close>

theorem advisor_prefix_case_sensitive:
  assumes "lines = split_lines raw"
    and "i = advisor_index lines (chair_index lines (header_start lines))"
    and "i < length lines"
    and "is_prof (lines ! i)"
    and "take 4 (lines ! i) \<noteq> ''Prof''"
  shows "advisor (extract_title_page_fields raw) = lines ! i"
proof -
  from assms(3) have ne: "lines \<noteq> []" by auto
  from nth_mem [OF assms(3)] assms(1) have "lines ! i \<in> set (split_lines raw)" by simp
  then have "clean_line (lines ! i)" by (rule split_lines_clean)
  then have strip: "strip (lines ! i) = lines ! i" by (rule strip_of_clean)
  have "advisor (extract_title_page_fields raw) = advisor (structural_pass lines)"
    using ne assms(1) by (simp add: extract_title_page_fields_def Let_def fallback_pass_advisor)
  also have "\<dots> = strip (re_sub_start RE_PROF_PREFIX (lines ! i))"
    using assms(2,3) by (simp add: structural_pass_advisor advisor_step_def Let_def)
  also have "\<dots> = lines ! i"
    using assms(5) strip by (simp add: RE_PROF_PREFIX_no_match)
  finally show ?thesis .
qed

text \<open>
  C1: the page text whose eight lines are "Master Thesis", "A Study of Something",
  "Chair of Example", "Prof. Jane Doe", "John Smith", "Vallendar, January 5, 2024",
  "Max Mustermann" and "12345678" is split into these lines, and the extraction returns
  title "A Study of Something", advisor "Jane Doe", co-advisor "John Smith", location
  "Vallendar", submission date "January 5, 2024", student name "Max Mustermann" and
  student ID "12345678".
\<close>

theorem extract_title_page_fields_example:
  "split_lines ''Master Thesis\<newline>A Study of Something\<newline>Chair of Example\<newline>Prof. Jane Doe\<newline>John Smith\<newline>Vallendar, January 5, 2024\<newline>Max Mustermann\<newline>12345678''
     = [''Master Thesis'', ''A Study of Something'', ''Chair of Example'', ''Prof. Jane Doe'',
        ''John Smith'', ''Vallendar, January 5, 2024'', ''Max Mustermann'', ''12345678'']
   \<and> extract_title_page_fields ''Master Thesis\<newline>A Study of Something\<newline>Chair of Example\<newline>Prof. Jane Doe\<newline>John Smith\<newline>Vallendar, January 5, 2024\<newline>Max Mustermann\<newline>12345678''
     = \<lparr> thesis_title = ''A Study of Something'', advisor = ''Jane Doe'',
         co_advisor = ''John Smith'', location = ''Vallendar'',
         submission_date = ''January 5, 2024'', student_name = ''Max Mustermann'',
         student_id = ''12345678'' \<rparr>"
  by code_simp

text \<open>
  C5: on the lines "Master Thesis", "A Title", "Chair of Example", "John Smith" the marker
  position is 2 and no line from there on matches the Prof pattern; \<open>advisor_idx\<close> stays
  at the marker position, and the advisor field is set to the Chair line, not left empty.
\<close>

theorem advisor_without_prof_line:
  "split_lines ''Master Thesis\<newline>A Title\<newline>Chair of Example\<newline>John Smith''
     = [''Master Thesis'', ''A Title'', ''Chair of Example'', ''John Smith'']
   \<and> chair_index [''Master Thesis'', ''A Title'', ''Chair of Example'', ''John Smith''] 1 = 2
   \<and> first_index is_prof (drop 2 [''Master Thesis'', ''A Title'', ''Chair of Example'', ''John Smith''])
       = None
   \<and> advisor_index [''Master Thesis'', ''A Title'', ''Chair of Example'', ''John Smith''] 2 = 2
   \<and> advisor (extract_title_page_fields ''Master Thesis\<newline>A Title\<newline>Chair of Example\<newline>John Smith'')
       = ''Chair of Example''"
  by code_simp

theorem extract_title_page_fields_trimmed_witness:
  "extract_title_page_fields '' A Title \<newline>Max Muster\<newline>12345678\<newline>handed in Sep 3, 2024 ''
     = \<lparr> thesis_title = ''A Title Max Muster 12345678 handed in Sep 3, 2024'',
         advisor = ''A Title'', co_advisor = ''Max Muster'', location = [],
         submission_date = ''Sep 3, 2024'', student_name = ''Max Muster'',
         student_id = ''12345678'' \<rparr>
   \<and> trimmed (thesis_title (extract_title_page_fields '' A Title \<newline>Max Muster\<newline>12345678\<newline>handed in Sep 3, 2024 ''))
   \<and> trimmed (submission_date (extract_title_page_fields '' A Title \<newline>Max Muster\<newline>12345678\<newline>handed in Sep 3, 2024 ''))
   \<and> trimmed (location (extract_title_page_fields '' A Title \<newline>Max Muster\<newline>12345678\<newline>handed in Sep 3, 2024 ''))"
proof -
  have "extract_title_page_fields '' A Title \<newline>Max Muster\<newline>12345678\<newline>handed in Sep 3, 2024 ''
     = \<lparr> thesis_title = ''A Title Max Muster 12345678 handed in Sep 3, 2024'',
         advisor = ''A Title'', co_advisor = ''Max Muster'', location = [],
         submission_date = ''Sep 3, 2024'', student_name = ''Max Muster'',
         student_id = ''12345678'' \<rparr>"
    by code_simp
  with extract_title_page_fields_trimmed [of "'' A Title \<newline>Max Muster\<newline>12345678\<newline>handed in Sep 3, 2024 ''"]
  show ?thesis by simp
qed

theorem fallback_pass_keeps_filled_witness:
  "student_name (empty_result\<lparr>student_name := ''Jane Roe'', location := ''Bonn''\<rparr>) \<noteq> []
   \<and> fallback_pass (empty_result\<lparr>student_name := ''Jane Roe'', location := ''Bonn''\<rparr>)
        [''Max Muster'', ''12345678'', ''Sep 3, 2024'']
        ''Max Muster\<newline>12345678\<newline>Sep 3, 2024'' 0
      = \<lparr> thesis_title = ''Max Muster'', advisor = [], co_advisor = [], location = ''Bonn'',
          submission_date = ''Sep 3, 2024'', student_name = ''Jane Roe'',
          student_id = ''12345678'' \<rparr>"
proof -
  have "fallback_pass (empty_result\<lparr>student_name := ''Jane Roe'', location := ''Bonn''\<rparr>)
        [''Max Muster'', ''12345678'', ''Sep 3, 2024'']
        ''Max Muster\<newline>12345678\<newline>Sep 3, 2024'' 0
      = \<lparr> thesis_title = ''Max Muster'', advisor = [], co_advisor = [], location = ''Bonn'',
          submission_date = ''Sep 3, 2024'', student_name = ''Jane Roe'',
          student_id = ''12345678'' \<rparr>"
    by code_simp
  with fallback_pass_keeps_filled
         [of "empty_result\<lparr>student_name := ''Jane Roe'', location := ''Bonn''\<rparr>"
             "[''Max Muster'', ''12345678'', ''Sep 3, 2024'']"
             "''Max Muster\<newline>12345678\<newline>Sep 3, 2024''" 0]
  show ?thesis by (simp add: empty_result_def)
qed

theorem advisor_prefix_case_sensitive_witness:
  "advisor (extract_title_page_fields ''Master Thesis\<newline>On Things\<newline>PROF. DR. Jane Doe\<newline>Vallendar, May 2, 2023'')
     = ''PROF. DR. Jane Doe''"
proof -
  let ?raw = "''Master Thesis\<newline>On Things\<newline>PROF. DR. Jane Doe\<newline>Vallendar, May 2, 2023''"
  let ?lines = "[''Master Thesis'', ''On Things'', ''PROF. DR. Jane Doe'', ''Vallendar, May 2, 2023'']"
  have h1: "?lines = split_lines ?raw" by code_simp
  have h2: "2 = advisor_index ?lines (chair_index ?lines (header_start ?lines))" by code_simp
  have h3: "2 < length ?lines" by simp
  have h4: "is_prof (?lines ! 2)" by code_simp
  have h5: "take 4 (?lines ! 2) \<noteq> ''Prof''" by simp
  from advisor_prefix_case_sensitive [OF h1 h2 h3 h4 h5] show ?thesis by simp
qed

end
